theory Spec2Isabelle
  imports Complex_Main
begin

section \<open>Data model\<close>

text \<open>
  The two scripts \<^verbatim>\<open>experiment.py\<close> and \<^verbatim>\<open>ba.py\<close> work on a networkx graph and on a
  Python dict of opinions.

  A networkx \<^verbatim>\<open>Graph\<close> stores a dict from each node to its adjacency; \<^verbatim>\<open>for v in G\<close>
  walks the keys of that dict in insertion order and \<^verbatim>\<open>G.neighbors(v)\<close> walks the
  adjacency of \<^verbatim>\<open>v\<close>. A graph is therefore the list of its (node, neighbours) entries,
  in iteration order. Nodes of a Barabasi-Albert graph are the integers from 0.

  A dict is the list of its (key, value) items in insertion order, with distinct keys.
  Labels are the Python strings \<^verbatim>\<open>'Red'\<close> and \<^verbatim>\<open>'Blue'\<close>.
\<close>

type_synonym node = nat

type_synonym graph = "(node \<times> node list) list"

type_synonym opinions = "(node \<times> string) list"

datatype error =
    KeyError node
  | ZeroDivisionError
  | ValueError
  | IndexError

definition nodes :: "graph \<Rightarrow> node list" where
  "nodes g = map fst g"

text \<open>The invariants networkx keeps: nodes are distinct keys, every neighbour is a node.\<close>

definition wf_graph :: "graph \<Rightarrow> bool" where
  "wf_graph g \<longleftrightarrow>
     distinct (nodes g) \<and> list_all (\<lambda>(v, nbrs). list_all (\<lambda>u. u \<in> set (nodes g)) nbrs) g"

text \<open>The invariant of a Python dict: keys are distinct.\<close>

definition is_dict :: "opinions \<Rightarrow> bool" where
  "is_dict ops \<longleftrightarrow> distinct (map fst ops)"

text \<open>\<^verbatim>\<open>opinions[u]\<close> raises KeyError when the key is missing.\<close>

definition getitem :: "opinions \<Rightarrow> node \<Rightarrow> error + string" where
  "getitem ops u = (case map_of ops u of None \<Rightarrow> Inl (KeyError u) | Some l \<Rightarrow> Inr l)"

text \<open>\<^verbatim>\<open>d[k] = x\<close>: an existing key keeps its place, a new key goes to the end.\<close>

fun setitem :: "opinions \<Rightarrow> node \<Rightarrow> string \<Rightarrow> opinions" where
  "setitem [] k x = [(k, x)]"
| "setitem ((k', x') # d) k x = (if k' = k then (k, x) # d else (k', x') # setitem d k x)"

text \<open>
  \<^verbatim>\<open>new_op == opinions\<close> on dicts compares the items regardless of order; on lists with
  distinct keys that is equality of the item sets.
\<close>

definition dict_eq :: "opinions \<Rightarrow> opinions \<Rightarrow> bool" where
  "dict_eq a b \<longleftrightarrow> set a = set b"

text \<open>
  A labeling is total for a graph when every node and every neighbour has a label.
\<close>

definition total_labeling :: "graph \<Rightarrow> opinions \<Rightarrow> bool" where
  "total_labeling g ops \<longleftrightarrow>
     list_all (\<lambda>(v, nbrs). v \<in> fst ` set ops \<and> list_all (\<lambda>u. u \<in> fst ` set ops) nbrs) g"

section \<open>The illusion detector: \<^verbatim>\<open>static_majority_illusion\<close>\<close>

text \<open>
  The function is the same in both files up to the names of its variables:
  \<^verbatim>\<open>
  def static_majority_illusion(G, opinions):
      red = sum(op == 'Red' for op in opinions.values())
      blue = len(opinions) - red
      global_maj = 'Red' if red > blue else 'Blue'
      illusion = []
      for v in G:
          nbrs = list(G.neighbors(v))
          if not nbrs:
              continue
          r = sum(opinions[u] == 'Red' for u in nbrs)
          b = len(nbrs) - r
          if r == b:
              continue
          local = 'Red' if r > b else 'Blue'
          if local != global_maj:
              illusion.append(v)
      return global_maj, illusion
  \<close>
\<close>

definition red_total :: "opinions \<Rightarrow> nat" where
  "red_total ops = length (filter (\<lambda>op. op = ''Red'') (map snd ops))"

definition blue_total :: "opinions \<Rightarrow> nat" where
  "blue_total ops = length ops - red_total ops"

definition global_maj :: "opinions \<Rightarrow> string" where
  "global_maj ops = (if red_total ops > blue_total ops then ''Red'' else ''Blue'')"

text \<open>\<^verbatim>\<open>sum(opinions[u] == 'Red' for u in nbrs)\<close>, stopping at the first missing key.\<close>

fun count_red :: "opinions \<Rightarrow> node list \<Rightarrow> error + nat" where
  "count_red ops [] = Inr 0"
| "count_red ops (u # us) =
     (case getitem ops u of
        Inl e \<Rightarrow> Inl e
      | Inr l \<Rightarrow>
          (case count_red ops us of
             Inl e \<Rightarrow> Inl e
           | Inr n \<Rightarrow> Inr ((if l = ''Red'' then 1 else 0) + n)))"

text \<open>The body of the \<^verbatim>\<open>for v in G\<close> loop: the illusion list after visiting one node.\<close>

definition illusion_body :: "string \<Rightarrow> opinions \<Rightarrow> node \<Rightarrow> node list \<Rightarrow> node list \<Rightarrow> error + node list" where
  "illusion_body gm ops v nbrs illusion =
     (if nbrs = [] then Inr illusion
      else
        (case count_red ops nbrs of
           Inl e \<Rightarrow> Inl e
         | Inr r \<Rightarrow>
             (let b = length nbrs - r in
              if r = b then Inr illusion
              else
                (let local = (if r > b then ''Red'' else ''Blue'') in
                 if local \<noteq> gm then Inr (illusion @ [v]) else Inr illusion))))"

fun illusion_loop :: "string \<Rightarrow> opinions \<Rightarrow> graph \<Rightarrow> node list \<Rightarrow> error + node list" where
  "illusion_loop gm ops [] illusion = Inr illusion"
| "illusion_loop gm ops ((v, nbrs) # rest) illusion =
     (case illusion_body gm ops v nbrs illusion of
        Inl e \<Rightarrow> Inl e
      | Inr illusion' \<Rightarrow> illusion_loop gm ops rest illusion')"

definition static_majority_illusion :: "graph \<Rightarrow> opinions \<Rightarrow> error + (string \<times> node list)" where
  "static_majority_illusion g ops =
     (let gm = global_maj ops in
      case illusion_loop gm ops g [] of
        Inl e \<Rightarrow> Inl e
      | Inr illusion \<Rightarrow> Inr (gm, illusion))"

text \<open>
  The neighbour counts of a node as the detector sees them, for stating what it returns.
\<close>

definition red_nbrs :: "opinions \<Rightarrow> node list \<Rightarrow> nat" where
  "red_nbrs ops nbrs = length (filter (\<lambda>u. map_of ops u = Some ''Red'') nbrs)"

definition blue_nbrs :: "opinions \<Rightarrow> node list \<Rightarrow> nat" where
  "blue_nbrs ops nbrs = length nbrs - red_nbrs ops nbrs"

definition local_maj :: "opinions \<Rightarrow> node list \<Rightarrow> string" where
  "local_maj ops nbrs = (if red_nbrs ops nbrs > blue_nbrs ops nbrs then ''Red'' else ''Blue'')"

definition under_illusion :: "string \<Rightarrow> opinions \<Rightarrow> node \<times> node list \<Rightarrow> bool" where
  "under_illusion gm ops entry \<longleftrightarrow>
     snd entry \<noteq> [] \<and> red_nbrs ops (snd entry) \<noteq> blue_nbrs ops (snd entry)
       \<and> local_maj ops (snd entry) \<noteq> gm"

section \<open>Parameters\<close>

text \<open>\<^verbatim>\<open>phi = 0.5\<close> and \<^verbatim>\<open>max_rounds = 50\<close>, the module constants of both files.\<close>

definition phi :: rat where
  "phi = 1 / 2"

definition max_rounds :: nat where
  "max_rounds = 50"

section \<open>Degrees and the influencer selector\<close>

text \<open>
  networkx counts a self-loop twice in the degree, while the adjacency lists the node
  itself once.
\<close>

definition degree :: "node \<Rightarrow> node list \<Rightarrow> nat" where
  "degree v nbrs = length nbrs + (if v \<in> set nbrs then 1 else 0)"

text \<open>\<^verbatim>\<open>G.degree()\<close>: the (node, degree) pairs in node order.\<close>

definition degree_view :: "graph \<Rightarrow> (node \<times> nat) list" where
  "degree_view g = map (\<lambda>(v, nbrs). (v, degree v nbrs)) g"

text \<open>
  \<^verbatim>\<open>
  def identify_influencers_by_threshold(G):
      avg_deg = sum(dict(G.degree()).values()) / G.number_of_nodes()
      threshold = 2 * avg_deg
      return {v for v, d in G.degree() if d > threshold}
  \<close>
  The division is Python's true division, which raises ZeroDivisionError on a zero
  divisor. The quotient is taken in the rationals: a degree \<open>d\<close> and the float
  \<open>2 * (s / n)\<close> compare as \<open>d\<close> and \<open>2 * s / n\<close> do as long as the graph has fewer
  than \<open>2 ^ 50\<close> nodes.
\<close>

definition identify_influencers_by_threshold :: "graph \<Rightarrow> error + node set" where
  "identify_influencers_by_threshold g =
     (if length (nodes g) = 0 then Inl ZeroDivisionError
      else
        (let avg_deg = (of_nat (sum_list (map snd (degree_view g))) :: rat)
                         / of_nat (length (nodes g));
             threshold = 2 * avg_deg
         in Inr (set (map fst (filter (\<lambda>(v, d). of_nat d > threshold) (degree_view g))))))"

section \<open>The diffusion simulator: \<^verbatim>\<open>dynamic_simulation\<close>\<close>

text \<open>
  Both files run the same loop around a different update of the labels:
  \<^verbatim>\<open>
  opinions = opinions_init.copy()
  illusion_series = []
  for _ in range(max_rounds):
      _, ill = static_majority_illusion(G, opinions)
      illusion_series.append(len(ill))
      new_op = ...
      if new_op == opinions:
          break
      opinions = new_op
  return illusion_series, opinions
  \<close>
  In \<^verbatim>\<open>experiment.py\<close> the update starts from an empty dict and gives every node the
  strict majority label of its neighbours:
  \<^verbatim>\<open>
  new_op = {}
  for v in G:
      nbrs = list(G.neighbors(v))
      if not nbrs:
          new_op[v] = opinions[v]
          continue
      r = sum(opinions[u] == 'Red' for u in nbrs)
      b = len(nbrs) - r
      if r > b:
          new_op[v] = 'Red'
      elif b > r:
          new_op[v] = 'Blue'
      else:
          new_op[v] = opinions[v]
  \<close>
  In \<^verbatim>\<open>ba.py\<close> it starts from a copy and only turns Blue nodes Red:
  \<^verbatim>\<open>
  new_op = opinions.copy()
  for v in G.nodes():
      if opinions[v] == 'Blue':
          red_nbrs = sum(opinions[u]=='Red' for u in G.neighbors(v))
          if red_nbrs > phi * G.degree[v]:
              new_op[v] = 'Red'
  \<close>
  The product \<^verbatim>\<open>phi * G.degree[v]\<close> is half an integer and exact as a float, so the
  comparison is the one of the rationals.
\<close>

definition majority_body :: "opinions \<Rightarrow> node \<Rightarrow> node list \<Rightarrow> opinions \<Rightarrow> error + opinions" where
  "majority_body ops v nbrs new_op =
     (if nbrs = [] then
        (case getitem ops v of Inl e \<Rightarrow> Inl e | Inr l \<Rightarrow> Inr (setitem new_op v l))
      else
        (case count_red ops nbrs of
           Inl e \<Rightarrow> Inl e
         | Inr r \<Rightarrow>
             (let b = length nbrs - r in
              if r > b then Inr (setitem new_op v ''Red'')
              else if b > r then Inr (setitem new_op v ''Blue'')
              else (case getitem ops v of Inl e \<Rightarrow> Inl e | Inr l \<Rightarrow> Inr (setitem new_op v l)))))"

definition threshold_body :: "opinions \<Rightarrow> node \<Rightarrow> node list \<Rightarrow> opinions \<Rightarrow> error + opinions" where
  "threshold_body ops v nbrs new_op =
     (case getitem ops v of
        Inl e \<Rightarrow> Inl e
      | Inr l \<Rightarrow>
          if l = ''Blue'' then
            (case count_red ops nbrs of
               Inl e \<Rightarrow> Inl e
             | Inr rn \<Rightarrow>
                 if (of_nat rn :: rat) > phi * of_nat (degree v nbrs)
                 then Inr (setitem new_op v ''Red'')
                 else Inr new_op)
          else Inr new_op)"

text \<open>The \<^verbatim>\<open>for v in G\<close> loop of an update, over the body of either file.\<close>

fun update_loop ::
  "(opinions \<Rightarrow> node \<Rightarrow> node list \<Rightarrow> opinions \<Rightarrow> error + opinions)
     \<Rightarrow> opinions \<Rightarrow> graph \<Rightarrow> opinions \<Rightarrow> error + opinions" where
  "update_loop body ops [] new_op = Inr new_op"
| "update_loop body ops ((v, nbrs) # rest) new_op =
     (case body ops v nbrs new_op of
        Inl e \<Rightarrow> Inl e
      | Inr new_op' \<Rightarrow> update_loop body ops rest new_op')"

definition majority_round :: "graph \<Rightarrow> opinions \<Rightarrow> error + opinions" where
  "majority_round g ops = update_loop majority_body ops g []"

definition threshold_round :: "graph \<Rightarrow> opinions \<Rightarrow> error + opinions" where
  "threshold_round g ops = update_loop threshold_body ops g ops"

text \<open>
  One pass of the \<^verbatim>\<open>for _ in range(max_rounds)\<close> loop: the illusion size is appended,
  then the labels are updated; \<open>Inl\<close> of the pair is the \<^verbatim>\<open>break\<close>, which leaves
  \<^verbatim>\<open>opinions\<close> as it was, \<open>Inr\<close> goes on with the new labels.
\<close>

definition round_body ::
  "(graph \<Rightarrow> opinions \<Rightarrow> error + opinions) \<Rightarrow> graph \<Rightarrow> opinions \<Rightarrow> nat list
     \<Rightarrow> error + (bool \<times> nat list \<times> opinions)" where
  "round_body rnd g ops series =
     (case static_majority_illusion g ops of
        Inl e \<Rightarrow> Inl e
      | Inr res \<Rightarrow>
          (let series' = series @ [length (snd res)] in
           case rnd g ops of
             Inl e \<Rightarrow> Inl e
           | Inr new_op \<Rightarrow>
               if dict_eq new_op ops then Inr (True, series', ops)
               else Inr (False, series', new_op)))"

fun rounds_loop ::
  "(graph \<Rightarrow> opinions \<Rightarrow> error + opinions) \<Rightarrow> graph \<Rightarrow> nat \<Rightarrow> opinions \<Rightarrow> nat list
     \<Rightarrow> error + (nat list \<times> opinions)" where
  "rounds_loop rnd g 0 ops series = Inr (series, ops)"
| "rounds_loop rnd g (Suc k) ops series =
     (case round_body rnd g ops series of
        Inl e \<Rightarrow> Inl e
      | Inr (stop, series', ops') \<Rightarrow>
          if stop then Inr (series', ops') else rounds_loop rnd g k ops' series')"

text \<open>\<^verbatim>\<open>dynamic_simulation\<close> of \<^verbatim>\<open>experiment.py\<close>.\<close>

definition dynamic_simulation :: "graph \<Rightarrow> opinions \<Rightarrow> error + (nat list \<times> opinions)" where
  "dynamic_simulation g ops = rounds_loop majority_round g max_rounds ops []"

text \<open>\<^verbatim>\<open>dynamic_simulation\<close> of \<^verbatim>\<open>ba.py\<close>.\<close>

definition ba_dynamic_simulation :: "graph \<Rightarrow> opinions \<Rightarrow> error + (nat list \<times> opinions)" where
  "ba_dynamic_simulation g ops = rounds_loop threshold_round g max_rounds ops []"

text \<open>
  The number of graph nodes labelled Blue, the nodes the one-way update can still turn,
  and what it means for the one-way update to leave a labeling as it is.
\<close>

definition blue_nodes :: "graph \<Rightarrow> opinions \<Rightarrow> nat" where
  "blue_nodes g ops = length (filter (\<lambda>v. map_of ops v = Some ''Blue'') (nodes g))"

definition threshold_fixed_point :: "graph \<Rightarrow> opinions \<Rightarrow> bool" where
  "threshold_fixed_point g ops \<longleftrightarrow>
     (case threshold_round g ops of Inl e \<Rightarrow> False | Inr new_op \<Rightarrow> dict_eq new_op ops)"

section \<open>The opinion assigner and the batch records of \<^verbatim>\<open>experiment.py\<close>\<close>

text \<open>
  \<^verbatim>\<open>
  target = int(frac * N)
  if len(influencers) > target:
      sorted_infl = sorted(influencers, key=lambda v: G.degree(v), reverse=True)
      minority_set = set(sorted_infl[:target])
  else:
      minority_set = set(influencers)
      rest = list(set(G.nodes()) - minority_set)
      extra = target - len(minority_set)
      if extra > 0:
          minority_set |= set(random.sample(rest, extra))
  opinions_init = {v: 'Red' if v in minority_set else 'Blue' for v in G}
  \<close>
  \<^verbatim>\<open>N\<close> is the number of nodes the graph was generated with. The product
  \<^verbatim>\<open>frac * N\<close> is a float product, rounded to a double, and \<^verbatim>\<open>int\<close> truncates
  the value of that double towards zero. The rounding of the product is not modelled:
  the assignment takes the integer \<^verbatim>\<open>target\<close> as it comes out of that line. For the
  fractions of the script (0.10, 0.30 and 0.40 of 1000 nodes) it is 100, 300 and 400.
  The dict comprehension over the distinct nodes of the graph is the list of its items
  in node order.

  Two things come from the Python runtime and are parameters of the model: the order in
  which a set is iterated (\<open>iter\<close>), and \<^verbatim>\<open>random.sample\<close> (\<open>sample\<close>), which
  receives the population in that order.
\<close>

text \<open>\<^verbatim>\<open>int(x)\<close> of a float with the value \<open>x\<close>.\<close>

definition int_trunc :: "rat \<Rightarrow> int" where
  "int_trunc x = (if x \<ge> 0 then \<lfloor>x\<rfloor> else \<lceil>x\<rceil>)"

text \<open>\<^verbatim>\<open>xs[:t]\<close>; a negative \<open>t\<close> counts from the end.\<close>

definition slice_to :: "int \<Rightarrow> 'a list \<Rightarrow> 'a list" where
  "slice_to t xs = (if t \<ge> 0 then take (nat t) xs else take (length xs - nat (- t)) xs)"

text \<open>\<^verbatim>\<open>G.degree(v)\<close> for one node; a key that is not a node is an error.\<close>

definition degree_of :: "graph \<Rightarrow> node \<Rightarrow> error + nat" where
  "degree_of g v = (case map_of g v of None \<Rightarrow> Inl (KeyError v) | Some nbrs \<Rightarrow> Inr (degree v nbrs))"

text \<open>\<^verbatim>\<open>sorted\<close> computes the key of every element before it sorts.\<close>

fun degree_keys :: "graph \<Rightarrow> node list \<Rightarrow> error + (node \<times> nat) list" where
  "degree_keys g [] = Inr []"
| "degree_keys g (v # vs) =
     (case degree_of g v of
        Inl e \<Rightarrow> Inl e
      | Inr d \<Rightarrow> (case degree_keys g vs of Inl e \<Rightarrow> Inl e | Inr kvs \<Rightarrow> Inr ((v, d) # kvs)))"

text \<open>
  \<^verbatim>\<open>sorted(..., reverse=True)\<close> on (element, key) pairs: CPython reverses the list, sorts
  it with its stable sort, and reverses the result, so that elements with equal keys stay
  in their original order.
\<close>

definition py_sorted_reverse :: "('a \<times> nat) list \<Rightarrow> 'a list" where
  "py_sorted_reverse kvs = map fst (rev (sort_key snd (rev kvs)))"

definition minority_assignment ::
  "(node set \<Rightarrow> node list) \<Rightarrow> (node list \<Rightarrow> nat \<Rightarrow> error + node list)
     \<Rightarrow> graph \<Rightarrow> node set \<Rightarrow> int \<Rightarrow> error + node set" where
  "minority_assignment iter sample g influencers target =
     (if int (card influencers) > target then
        (case degree_keys g (iter influencers) of
           Inl e \<Rightarrow> Inl e
         | Inr kvs \<Rightarrow> Inr (set (slice_to target (py_sorted_reverse kvs))))
      else
        (let minority_set = influencers;
             rest = iter (set (nodes g) - minority_set);
             extra = target - int (card minority_set)
         in if extra > 0 then
              (case sample rest (nat extra) of
                 Inl e \<Rightarrow> Inl e
               | Inr s \<Rightarrow> Inr (minority_set \<union> set s))
            else Inr minority_set))"

definition opinions_init :: "graph \<Rightarrow> node set \<Rightarrow> opinions" where
  "opinions_init g minority_set =
     map (\<lambda>v. (v, if v \<in> minority_set then ''Red'' else ''Blue'')) (nodes g)"

text \<open>What the model asks of the two runtime parameters.\<close>

definition set_iteration :: "(node set \<Rightarrow> node list) \<Rightarrow> bool" where
  "set_iteration iter \<longleftrightarrow> (\<forall>S. finite S \<longrightarrow> set (iter S) = S \<and> distinct (iter S))"

definition random_sample :: "(node list \<Rightarrow> nat \<Rightarrow> error + node list) \<Rightarrow> bool" where
  "random_sample sample \<longleftrightarrow>
     (\<forall>pop k.
        if k \<le> length pop
        then (\<exists>s. sample pop k = Inr s \<and> length s = k \<and> set s \<subseteq> set pop
                   \<and> (distinct pop \<longrightarrow> distinct s))
        else sample pop k = Inl ValueError)"

text \<open>A set iterated in increasing order, and a sample that takes the first elements.\<close>

definition iter_sorted :: "node set \<Rightarrow> node list" where
  "iter_sorted S = sorted_list_of_set S"

definition sample_first :: "node list \<Rightarrow> nat \<Rightarrow> error + node list" where
  "sample_first pop k = (if k \<le> length pop then Inr (take k pop) else Inl ValueError)"

text \<open>
  The batch loop stores one record per graph and fraction:
  \<^verbatim>\<open>
  static_ct = len(static_majority_illusion(G_run, opinions)[1])
  seq, _ = dynamic_simulation(G_run, opinions)
  records.append({'infl': icount, 'frac': frac, 'static': static_ct, 'final': seq[-1]})
  \<close>
\<close>

record trial =
  rec_infl :: nat
  rec_frac :: rat
  rec_static :: nat
  rec_final :: nat

text \<open>\<^verbatim>\<open>seq[-1]\<close> raises IndexError on an empty list.\<close>

definition last_item :: "nat list \<Rightarrow> error + nat" where
  "last_item seq = (if seq = [] then Inl IndexError else Inr (last seq))"

definition trial_record :: "nat \<Rightarrow> rat \<Rightarrow> graph \<Rightarrow> opinions \<Rightarrow> error + trial" where
  "trial_record icount fr g ops =
     (case static_majority_illusion g ops of
        Inl e \<Rightarrow> Inl e
      | Inr res \<Rightarrow>
          (case dynamic_simulation g ops of
             Inl e \<Rightarrow> Inl e
           | Inr sim \<Rightarrow>
               (case last_item (fst sim) of
                  Inl e \<Rightarrow> Inl e
                | Inr f \<Rightarrow>
                    Inr \<lparr>rec_infl = icount, rec_frac = fr,
                         rec_static = length (snd res), rec_final = f\<rparr>)))"

section \<open>What the specification says of the opinion assigner\<close>

text \<open>
  The specification computes the target with \<^verbatim>\<open>round\<close>, which in Python rounds a half
  to the even neighbour.
\<close>

definition py_round :: "rat \<Rightarrow> int" where
  "py_round x =
     (let f = \<lfloor>x\<rfloor>; d = x - of_int f in
      if d < 1 / 2 then f else if d > 1 / 2 then f + 1 else if even f then f else f + 1)"

definition spec_target_count :: "rat \<Rightarrow> nat \<Rightarrow> int" where
  "spec_target_count fr n = py_round (fr * of_nat n)"

text \<open>
  The specification ranks the influencers by degree, largest first, and breaks ties by
  the node identifier; the two definitions take the smaller and the larger identifier
  first.
\<close>

definition degree_in :: "graph \<Rightarrow> node \<Rightarrow> nat" where
  "degree_in g v = (case map_of g v of None \<Rightarrow> 0 | Some nbrs \<Rightarrow> degree v nbrs)"

definition spec_top_influencers_asc :: "graph \<Rightarrow> node set \<Rightarrow> nat \<Rightarrow> node set" where
  "spec_top_influencers_asc g influencers k =
     set (take k (sort_key (\<lambda>v. - int (degree_in g v)) (sorted_list_of_set influencers)))"

definition spec_top_influencers_desc :: "graph \<Rightarrow> node set \<Rightarrow> nat \<Rightarrow> node set" where
  "spec_top_influencers_desc g influencers k =
     set (take k (sort_key (\<lambda>v. - int (degree_in g v)) (rev (sorted_list_of_set influencers))))"

section \<open>Example graphs\<close>

text \<open>The 4-cycle of the specification with opposite nodes sharing a label.\<close>

definition cycle4 :: graph where
  "cycle4 = [(0, [1, 3]), (1, [0, 2]), (2, [1, 3]), (3, [2, 0])]"

definition cycle4_opinions :: opinions where
  "cycle4_opinions = [(0, ''Red''), (1, ''Blue''), (2, ''Red''), (3, ''Blue'')]"

text \<open>
  A path of three nodes with two isolated nodes; the middle node is Red. The reversible
  update swaps the labels of the path in every round.
\<close>

definition flip_graph :: graph where
  "flip_graph = [(0, [1, 2]), (1, [0]), (2, [0]), (3, []), (4, [])]"

definition flip_opinions :: opinions where
  "flip_opinions = [(0, ''Red''), (1, ''Blue''), (2, ''Blue''), (3, ''Blue''), (4, ''Blue'')]"

text \<open>
  A graph that preferential attachment with two edges per new node can grow from the
  star on the nodes 0, 1, 2: node 3 attaches to 0 and 1, node 4 to 0 and 1, node 5 to
  0 and 3. It has no influencer; with the target fraction 1/3 the assigner draws two
  Red nodes, here 0 and 1.
\<close>

definition ba6_graph :: graph where
  "ba6_graph =
     [(0, [1, 2, 3, 4, 5]), (1, [0, 3, 4]), (2, [0]), (3, [0, 1, 5]), (4, [0, 1]), (5, [0, 3])]"

definition ba6_opinions :: opinions where
  "ba6_opinions = opinions_init ba6_graph {0, 1}"

text \<open>A path of three nodes; no node has more than twice the mean degree.\<close>

definition path3 :: graph where
  "path3 = [(0, [1]), (1, [0, 2]), (2, [1])]"

text \<open>
  Three hubs 1, 2 and 8 with four leaves each. CPython iterates the set \<^verbatim>\<open>{1, 2, 8}\<close>
  as 8, 1, 2.
\<close>

definition hubs_graph :: graph where
  "hubs_graph =
     [(0, [1]), (1, [0, 3, 4, 5]), (2, [6, 7, 9, 10]), (3, [1]), (4, [1]), (5, [1]),
      (6, [2]), (7, [2]), (8, [11, 12, 13, 14]), (9, [2]), (10, [2]),
      (11, [8]), (12, [8]), (13, [8]), (14, [8])]"

definition iter_cpython :: "node set \<Rightarrow> node list" where
  "iter_cpython S = (if S = {1, 2, 8} then [8, 1, 2] else sorted_list_of_set S)"

section \<open>Facts about the detector\<close>

lemma getitem_present:
  "u \<in> fst ` set ops \<Longrightarrow> \<exists>l. getitem ops u = Inr l \<and> map_of ops u = Some l"
proof -
  assume "u \<in> fst ` set ops"
  then obtain l where "map_of ops u = Some l"
    by (metis domD dom_map_of_conv_image_fst)
  then show ?thesis by (simp add: getitem_def)
qed

lemma count_red_total:
  "list_all (\<lambda>u. u \<in> fst ` set ops) nbrs \<Longrightarrow> count_red ops nbrs = Inr (red_nbrs ops nbrs)"
proof (induction nbrs)
  case Nil
  then show ?case by (simp add: red_nbrs_def)
next
  case (Cons u us)
  from Cons.prems have "u \<in> fst ` set ops" by simp
  then obtain l where l: "getitem ops u = Inr l" "map_of ops u = Some l"
    using getitem_present by blast
  from Cons have "count_red ops us = Inr (red_nbrs ops us)" by simp
  with l show ?case by (simp add: red_nbrs_def)
qed

lemma illusion_body_total:
  assumes "list_all (\<lambda>u. u \<in> fst ` set ops) nbrs"
  shows "illusion_body gm ops v nbrs acc
           = Inr (if under_illusion gm ops (v, nbrs) then acc @ [v] else acc)"
proof -
  have "count_red ops nbrs = Inr (red_nbrs ops nbrs)"
    using assms by (rule count_red_total)
  then show ?thesis
    by (simp add: illusion_body_def under_illusion_def blue_nbrs_def local_maj_def Let_def)
qed

lemma illusion_loop_total:
  "total_labeling g ops \<Longrightarrow>
   illusion_loop gm ops g acc = Inr (acc @ map fst (filter (under_illusion gm ops) g))"
proof (induction g arbitrary: acc)
  case Nil
  then show ?case by simp
next
  case (Cons entry rest)
  obtain v nbrs where entry: "entry = (v, nbrs)" by (cases entry)
  from Cons.prems entry have cover: "list_all (\<lambda>u. u \<in> fst ` set ops) nbrs"
    and rest: "total_labeling rest ops"
    by (simp_all add: total_labeling_def)
  have ih: "\<And>acc. illusion_loop gm ops rest acc
              = Inr (acc @ map fst (filter (under_illusion gm ops) rest))"
    using Cons.IH rest by blast
  show ?case
    unfolding entry by (simp add: illusion_body_total [OF cover] ih)
qed

lemma static_majority_illusion_total:
  "total_labeling g ops \<Longrightarrow>
   static_majority_illusion g ops
     = Inr (global_maj ops, map fst (filter (under_illusion (global_maj ops) ops) g))"
  by (simp add: static_majority_illusion_def illusion_loop_total Let_def)

lemma total_labeling_cycle4: "total_labeling cycle4 cycle4_opinions"
  by (simp add: total_labeling_def cycle4_def cycle4_opinions_def)

section \<open>Global majority label\<close>

text \<open>
  C1 (as amended). On a total labeling the detector returns \<^verbatim>\<open>'Red'\<close> as the global
  majority label exactly when the Red count is strictly greater than the Blue count; a
  tie of the two counts is not resolved in favour of Red.
\<close>

theorem global_label_red_iff_strictly_more:
  assumes "total_labeling g ops"
  shows "(\<exists>ill. static_majority_illusion g ops = Inr (''Red'', ill))
           \<longleftrightarrow> red_total ops > blue_total ops"
  using assms by (auto simp add: static_majority_illusion_total global_maj_def)

theorem global_label_red_iff_strictly_more_witness:
  "total_labeling cycle4 cycle4_opinions
     \<and> \<not> red_total cycle4_opinions > blue_total cycle4_opinions
     \<and> \<not> (\<exists>ill. static_majority_illusion cycle4 cycle4_opinions = Inr (''Red'', ill))"
  using global_label_red_iff_strictly_more [OF total_labeling_cycle4] total_labeling_cycle4
  by (simp add: red_total_def blue_total_def cycle4_opinions_def)

text \<open>
  C1 (as stated) fails on the 4-cycle with two Red and two Blue nodes: the counts are
  equal and the label returned is \<^verbatim>\<open>'Blue'\<close>.
\<close>

theorem tie_returns_red_counterexample:
  "red_total cycle4_opinions = blue_total cycle4_opinions
     \<and> static_majority_illusion cycle4 cycle4_opinions = Inr (''Blue'', [1, 3])
     \<and> static_majority_illusion cycle4 cycle4_opinions \<noteq> Inr (''Red'', [1, 3])"
  by code_simp

text \<open>
  C2. On a total labeling whose Red and Blue counts are equal, the strict comparison
  makes the detector return \<^verbatim>\<open>'Blue'\<close> as the global majority label.
\<close>

theorem tie_returns_blue:
  assumes "total_labeling g ops" and "red_total ops = blue_total ops"
  shows "\<exists>ill. static_majority_illusion g ops = Inr (''Blue'', ill)"
  using assms by (simp add: static_majority_illusion_total global_maj_def)

theorem tie_returns_blue_witness:
  "total_labeling cycle4 cycle4_opinions
     \<and> red_total cycle4_opinions = blue_total cycle4_opinions
     \<and> (\<exists>ill. static_majority_illusion cycle4 cycle4_opinions = Inr (''Blue'', ill))"
proof -
  have tie: "red_total cycle4_opinions = blue_total cycle4_opinions"
    by (simp add: red_total_def blue_total_def cycle4_opinions_def)
  show ?thesis
    using tie_returns_blue [OF total_labeling_cycle4 tie] tie total_labeling_cycle4 by simp
qed

section \<open>The illusion set\<close>

text \<open>
  C6. On a total labeling the detector returns, in node order, exactly the nodes that
  have at least one neighbour, whose Red and Blue neighbour counts differ, and whose
  local majority label differs from the global majority label it returns. Isolated nodes
  and nodes with a local tie are not in the list.
\<close>

theorem illusion_set_exact:
  assumes "total_labeling g ops"
  shows "static_majority_illusion g ops
           = Inr (global_maj ops,
                  map fst (filter (\<lambda>(v, nbrs). nbrs \<noteq> []
                                     \<and> red_nbrs ops nbrs \<noteq> blue_nbrs ops nbrs
                                     \<and> local_maj ops nbrs \<noteq> global_maj ops) g))"
proof -
  have "under_illusion (global_maj ops) ops
          = (\<lambda>(v, nbrs). nbrs \<noteq> [] \<and> red_nbrs ops nbrs \<noteq> blue_nbrs ops nbrs
                           \<and> local_maj ops nbrs \<noteq> global_maj ops)"
    by (rule ext) (simp add: under_illusion_def split_beta)
  with static_majority_illusion_total [OF assms] show ?thesis by simp
qed

theorem illusion_set_exact_witness:
  "total_labeling cycle4 cycle4_opinions
     \<and> static_majority_illusion cycle4 cycle4_opinions
         = Inr (global_maj cycle4_opinions,
                map fst (filter (\<lambda>(v, nbrs). nbrs \<noteq> []
                                   \<and> red_nbrs cycle4_opinions nbrs \<noteq> blue_nbrs cycle4_opinions nbrs
                                   \<and> local_maj cycle4_opinions nbrs \<noteq> global_maj cycle4_opinions)
                           cycle4))"
  using illusion_set_exact [OF total_labeling_cycle4] total_labeling_cycle4 by simp

section \<open>The influencer selector on the empty graph\<close>

text \<open>
  C9 (as amended). The influencer selector has no check of its own: it fails exactly on
  the graph without nodes, and the failure is the ZeroDivisionError of the mean-degree
  division.
\<close>

theorem influencers_error_iff_empty:
  "identify_influencers_by_threshold g = Inl e \<longleftrightarrow> nodes g = [] \<and> e = ZeroDivisionError"
  by (auto simp add: identify_influencers_by_threshold_def Let_def)

text \<open>
  C9 (as stated) fails: on the empty graph the error is the raw division error.
\<close>

theorem influencers_empty_graph_counterexample:
  "identify_influencers_by_threshold [] = Inl ZeroDivisionError"
  by (simp add: identify_influencers_by_threshold_def nodes_def)

section \<open>Facts about dicts and the two updates\<close>

lemma keys_setitem: "fst ` set (setitem d k x) = insert k (fst ` set d)"
  by (induction d k x rule: setitem.induct) auto

lemma map_of_setitem: "map_of (setitem d k x) = (map_of d)(k \<mapsto> x)"
  by (induction d k x rule: setitem.induct) auto

lemma distinct_setitem:
  "distinct (map fst d) \<Longrightarrow> distinct (map fst (setitem d k x))"
proof (induction d k x rule: setitem.induct)
  case (1 k x)
  then show ?case by simp
next
  case (2 k' x' d k x)
  have "fst ` set (setitem d k x) = insert k (fst ` set d)" by (rule keys_setitem)
  with 2 show ?case by auto
qed

lemma total_labeling_iff:
  "total_labeling g ops \<longleftrightarrow>
     (\<forall>v nbrs. (v, nbrs) \<in> set g \<longrightarrow> v \<in> fst ` set ops \<and> set nbrs \<subseteq> fst ` set ops)"
  unfolding total_labeling_def list_all_iff by auto

lemma wf_graph_nbrs:
  "wf_graph g \<Longrightarrow> (v, nbrs) \<in> set g \<Longrightarrow> set nbrs \<subseteq> set (nodes g)"
  unfolding wf_graph_def list_all_iff by auto

lemma total_labeling_mono:
  assumes "total_labeling g ops" and "fst ` set ops \<subseteq> fst ` set ops'"
  shows "total_labeling g ops'"
  using assms unfolding total_labeling_iff by blast

lemma total_labeling_wf:
  assumes "wf_graph g" and "set (nodes g) \<subseteq> fst ` set ops"
  shows "total_labeling g ops"
  unfolding total_labeling_iff
proof (intro allI impI conjI)
  fix v nbrs assume in_g: "(v, nbrs) \<in> set g"
  then have "v \<in> set (nodes g)" by (force simp add: nodes_def)
  with assms(2) show "v \<in> fst ` set ops" by blast
  from wf_graph_nbrs [OF assms(1) in_g] assms(2) show "set nbrs \<subseteq> fst ` set ops" by blast
qed

lemma majority_body_total:
  assumes "v \<in> fst ` set ops" and "list_all (\<lambda>u. u \<in> fst ` set ops) nbrs"
  shows "\<exists>l. majority_body ops v nbrs new_op = Inr (setitem new_op v l)"
proof -
  obtain l where l: "getitem ops v = Inr l"
    using getitem_present [OF assms(1)] by blast
  have cr: "count_red ops nbrs = Inr (red_nbrs ops nbrs)"
    using assms(2) by (rule count_red_total)
  show ?thesis by (auto simp add: majority_body_def l cr Let_def)
qed

lemma threshold_body_total:
  assumes "v \<in> fst ` set ops" and "list_all (\<lambda>u. u \<in> fst ` set ops) nbrs"
  shows "threshold_body ops v nbrs new_op = Inr new_op
           \<or> threshold_body ops v nbrs new_op = Inr (setitem new_op v ''Red'')"
proof -
  obtain l where l: "getitem ops v = Inr l"
    using getitem_present [OF assms(1)] by blast
  have cr: "count_red ops nbrs = Inr (red_nbrs ops nbrs)"
    using assms(2) by (rule count_red_total)
  show ?thesis by (simp add: threshold_body_def l cr)
qed

lemma majority_loop_total:
  "total_labeling g ops \<Longrightarrow>
   \<exists>new. update_loop majority_body ops g acc = Inr new
          \<and> fst ` set new = fst ` set acc \<union> set (nodes g)"
proof (induction g arbitrary: acc)
  case Nil
  then show ?case by (simp add: nodes_def)
next
  case (Cons entry rest)
  obtain v nbrs where entry: "entry = (v, nbrs)" by (cases entry)
  from Cons.prems entry have v: "v \<in> fst ` set ops"
    and cover: "list_all (\<lambda>u. u \<in> fst ` set ops) nbrs"
    and rest: "total_labeling rest ops"
    by (simp_all add: total_labeling_def)
  obtain l where body: "majority_body ops v nbrs acc = Inr (setitem acc v l)"
    using majority_body_total [OF v cover] by blast
  obtain new where new: "update_loop majority_body ops rest (setitem acc v l) = Inr new"
    "fst ` set new = fst ` set (setitem acc v l) \<union> set (nodes rest)"
    using Cons.IH [OF rest] by blast
  show ?case
    unfolding entry using body new by (auto simp add: keys_setitem nodes_def)
qed

lemma threshold_loop_total:
  "total_labeling g ops \<Longrightarrow>
   \<exists>new. update_loop threshold_body ops g acc = Inr new \<and> fst ` set acc \<subseteq> fst ` set new"
proof (induction g arbitrary: acc)
  case Nil
  then show ?case by simp
next
  case (Cons entry rest)
  obtain v nbrs where entry: "entry = (v, nbrs)" by (cases entry)
  from Cons.prems entry have v: "v \<in> fst ` set ops"
    and cover: "list_all (\<lambda>u. u \<in> fst ` set ops) nbrs"
    and rest: "total_labeling rest ops"
    by (simp_all add: total_labeling_def)
  have "\<exists>acc'. threshold_body ops v nbrs acc = Inr acc' \<and> fst ` set acc \<subseteq> fst ` set acc'"
  proof (cases "threshold_body ops v nbrs acc = Inr acc")
    case True
    then show ?thesis by simp
  next
    case False
    with threshold_body_total [OF v cover, of acc]
    have "threshold_body ops v nbrs acc = Inr (setitem acc v ''Red'')" by simp
    then show ?thesis by (simp add: keys_setitem subset_insertI)
  qed
  then obtain acc' where body: "threshold_body ops v nbrs acc = Inr acc'"
    and sub: "fst ` set acc \<subseteq> fst ` set acc'"
    by blast
  obtain new where new: "update_loop threshold_body ops rest acc' = Inr new"
    "fst ` set acc' \<subseteq> fst ` set new"
    using Cons.IH [OF rest] by blast
  show ?case
    unfolding entry using body new sub by auto
qed

lemma majority_round_total:
  assumes "wf_graph g" and "total_labeling g ops"
  shows "\<exists>new. majority_round g ops = Inr new \<and> total_labeling g new"
proof -
  obtain new where new: "update_loop majority_body ops g [] = Inr new"
    "fst ` set new = fst ` set ([] :: opinions) \<union> set (nodes g)"
    using majority_loop_total [OF assms(2), of "[]"] by blast
  then have "set (nodes g) \<subseteq> fst ` set new" by simp
  with assms(1) have "total_labeling g new" by (rule total_labeling_wf)
  with new show ?thesis by (simp add: majority_round_def)
qed

lemma threshold_round_total:
  assumes "total_labeling g ops"
  shows "\<exists>new. threshold_round g ops = Inr new \<and> total_labeling g new"
proof -
  obtain new where new: "update_loop threshold_body ops g ops = Inr new"
    "fst ` set ops \<subseteq> fst ` set new"
    using threshold_loop_total [OF assms] by blast
  from assms new(2) have "total_labeling g new" by (rule total_labeling_mono)
  with new show ?thesis by (simp add: threshold_round_def)
qed

lemma rounds_loop_total:
  assumes step: "\<And>ops. total_labeling g ops \<Longrightarrow> \<exists>new. rnd g ops = Inr new \<and> total_labeling g new"
  shows "total_labeling g ops \<Longrightarrow>
         \<exists>series' final. rounds_loop rnd g k ops series = Inr (series', final)
            \<and> length series' \<le> length series + k
            \<and> length series + (if k = 0 then 0 else 1) \<le> length series'"
proof (induction k arbitrary: ops series)
  case 0
  then show ?case by simp
next
  case (Suc k)
  obtain new where new: "rnd g ops = Inr new" "total_labeling g new"
    using step [OF Suc.prems] by blast
  let ?ill = "map fst (filter (under_illusion (global_maj ops) ops) g)"
  have sml: "static_majority_illusion g ops = Inr (global_maj ops, ?ill)"
    using Suc.prems by (rule static_majority_illusion_total)
  show ?case
  proof (cases "dict_eq new ops")
    case True
    then show ?thesis by (simp add: round_body_def sml new Let_def)
  next
    case False
    obtain series' final where res:
      "rounds_loop rnd g k new (series @ [length ?ill]) = Inr (series', final)"
      "length series' \<le> length (series @ [length ?ill]) + k"
      "length (series @ [length ?ill]) + (if k = 0 then 0 else 1) \<le> length series'"
      using Suc.IH [OF new(2)] by blast
    from False res show ?thesis
      by (auto simp add: round_body_def sml new Let_def split: if_splits)
  qed
qed

section \<open>Length of the illusion series\<close>

lemma wf_flip_graph: "wf_graph flip_graph"
  by (simp add: wf_graph_def flip_graph_def nodes_def)

lemma total_labeling_flip: "total_labeling flip_graph flip_opinions"
  by (simp add: total_labeling_def flip_graph_def flip_opinions_def)

text \<open>
  C10. For every graph and every total labeling, \<^verbatim>\<open>dynamic_simulation\<close> of either file
  returns a series with at least one and at most \<^verbatim>\<open>max_rounds\<close> entries, so that
  \<^verbatim>\<open>series[-1]\<close> (and the maximum) of the callers is defined.
\<close>

theorem series_bounds:
  assumes "wf_graph g" and "total_labeling g ops"
  shows "(\<exists>series final. dynamic_simulation g ops = Inr (series, final)
            \<and> 1 \<le> length series \<and> length series \<le> max_rounds
            \<and> last_item series = Inr (last series))
       \<and> (\<exists>series final. ba_dynamic_simulation g ops = Inr (series, final)
            \<and> 1 \<le> length series \<and> length series \<le> max_rounds
            \<and> last_item series = Inr (last series))"
proof
  have pos: "max_rounds \<noteq> 0" by (simp add: max_rounds_def)
  obtain series final where
    "rounds_loop majority_round g max_rounds ops [] = Inr (series, final)"
    "length series \<le> length ([] :: nat list) + max_rounds"
    "length ([] :: nat list) + (if max_rounds = 0 then 0 else 1) \<le> length series"
    using rounds_loop_total [of g majority_round ops max_rounds "[]"]
      majority_round_total [OF assms(1)] assms(2) by blast
  with pos show "\<exists>series final. dynamic_simulation g ops = Inr (series, final)
            \<and> 1 \<le> length series \<and> length series \<le> max_rounds
            \<and> last_item series = Inr (last series)"
    by (auto simp add: dynamic_simulation_def last_item_def)
next
  have pos: "max_rounds \<noteq> 0" by (simp add: max_rounds_def)
  obtain series final where
    "rounds_loop threshold_round g max_rounds ops [] = Inr (series, final)"
    "length series \<le> length ([] :: nat list) + max_rounds"
    "length ([] :: nat list) + (if max_rounds = 0 then 0 else 1) \<le> length series"
    using rounds_loop_total [of g threshold_round ops max_rounds "[]"]
      threshold_round_total assms(2) by blast
  with pos show "\<exists>series final. ba_dynamic_simulation g ops = Inr (series, final)
            \<and> 1 \<le> length series \<and> length series \<le> max_rounds
            \<and> last_item series = Inr (last series)"
    by (auto simp add: ba_dynamic_simulation_def last_item_def)
qed

theorem series_bounds_witness:
  "wf_graph flip_graph \<and> total_labeling flip_graph flip_opinions
     \<and> (\<exists>series final. dynamic_simulation flip_graph flip_opinions = Inr (series, final)
            \<and> 1 \<le> length series \<and> length series \<le> max_rounds
            \<and> last_item series = Inr (last series))
     \<and> (\<exists>series final. ba_dynamic_simulation flip_graph flip_opinions = Inr (series, final)
            \<and> 1 \<le> length series \<and> length series \<le> max_rounds
            \<and> last_item series = Inr (last series))"
  using series_bounds [OF wf_flip_graph total_labeling_flip] wf_flip_graph total_labeling_flip
  by simp

section \<open>The one-way threshold update never turns Red into Blue\<close>

lemma red_total_setitem_red: "red_total d \<le> red_total (setitem d k ''Red'')"
  by (induction d k "''Red''" rule: setitem.induct) (auto simp add: red_total_def)

lemma getitem_eq_map_of: "getitem ops v = Inr l \<longleftrightarrow> map_of ops v = Some l"
  by (simp add: getitem_def split: option.splits)

lemma threshold_body_cases:
  assumes "threshold_body ops v nbrs acc = Inr acc'"
  shows "acc' = acc \<or> (acc' = setitem acc v ''Red'' \<and> map_of ops v = Some ''Blue'')"
  using assms
  by (auto simp add: threshold_body_def getitem_def split: option.splits sum.splits if_splits)

lemma threshold_loop_rule:
  assumes "update_loop threshold_body ops g acc = Inr new"
    and "P acc"
    and "\<And>a v. P a \<Longrightarrow> map_of ops v = Some ''Blue'' \<Longrightarrow> v \<in> set (nodes g)
            \<Longrightarrow> P (setitem a v ''Red'')"
  shows "P new"
  using assms
proof (induction g arbitrary: acc)
  case Nil
  then show ?case by simp
next
  case (Cons entry rest)
  obtain v nbrs where entry: "entry = (v, nbrs)" by (cases entry)
  from Cons.prems(1) entry obtain acc' where
    body: "threshold_body ops v nbrs acc = Inr acc'"
    and loop: "update_loop threshold_body ops rest acc' = Inr new"
    by (auto split: sum.splits)
  have step: "\<And>a u. P a \<Longrightarrow> map_of ops u = Some ''Blue'' \<Longrightarrow> u \<in> set (nodes rest)
            \<Longrightarrow> P (setitem a u ''Red'')"
    using Cons.prems(3) by (simp add: nodes_def)
  have acc': "P acc'"
  proof (cases "acc' = acc")
    case True
    with Cons.prems(2) show ?thesis by simp
  next
    case False
    with threshold_body_cases [OF body]
    have "acc' = setitem acc v ''Red''" "map_of ops v = Some ''Blue''" by simp_all
    moreover have "v \<in> set (nodes (entry # rest))" by (simp add: entry nodes_def)
    ultimately show ?thesis using Cons.prems(2,3) by blast
  qed
  from loop acc' step show ?case by (rule Cons.IH)
qed

lemma threshold_round_red_total:
  assumes "threshold_round g ops = Inr new"
  shows "red_total ops \<le> red_total new"
proof -
  from assms have "update_loop threshold_body ops g ops = Inr new"
    by (simp add: threshold_round_def)
  then show ?thesis
  proof (rule threshold_loop_rule)
    show "red_total ops \<le> red_total ops" by simp
  next
    fix a v assume "red_total ops \<le> red_total a"
    with red_total_setitem_red [of a v] show "red_total ops \<le> red_total (setitem a v ''Red'')"
      by simp
  qed
qed

lemma threshold_round_keeps_red:
  assumes "threshold_round g ops = Inr new" and "map_of ops u = Some ''Red''"
  shows "map_of new u = Some ''Red''"
proof -
  from assms(1) have "update_loop threshold_body ops g ops = Inr new"
    by (simp add: threshold_round_def)
  then show ?thesis
  proof (rule threshold_loop_rule)
    show "map_of ops u = Some ''Red''" by (rule assms(2))
  next
    fix a v assume "map_of a u = Some ''Red''"
    then show "map_of (setitem a v ''Red'') u = Some ''Red''"
      by (simp add: map_of_setitem)
  qed
qed

lemma threshold_round_change:
  assumes "threshold_round g ops = Inr new"
  shows "map_of new u = map_of ops u
           \<or> (map_of new u = Some ''Red'' \<and> map_of ops u = Some ''Blue'' \<and> u \<in> set (nodes g))"
proof -
  from assms(1) have "update_loop threshold_body ops g ops = Inr new"
    by (simp add: threshold_round_def)
  then show ?thesis
  proof (rule threshold_loop_rule)
    show "map_of ops u = map_of ops u
           \<or> (map_of ops u = Some ''Red'' \<and> map_of ops u = Some ''Blue'' \<and> u \<in> set (nodes g))"
      by simp
  next
    fix a v
    assume "map_of a u = map_of ops u
           \<or> (map_of a u = Some ''Red'' \<and> map_of ops u = Some ''Blue'' \<and> u \<in> set (nodes g))"
      and "map_of ops v = Some ''Blue''" and "v \<in> set (nodes g)"
    then show "map_of (setitem a v ''Red'') u = map_of ops u
           \<or> (map_of (setitem a v ''Red'') u = Some ''Red'' \<and> map_of ops u = Some ''Blue''
                \<and> u \<in> set (nodes g))"
      by (auto simp add: map_of_setitem)
  qed
qed

lemma threshold_round_is_dict:
  assumes "threshold_round g ops = Inr new" and "is_dict ops"
  shows "is_dict new"
proof -
  from assms(1) have "update_loop threshold_body ops g ops = Inr new"
    by (simp add: threshold_round_def)
  then show ?thesis
  proof (rule threshold_loop_rule)
    show "is_dict ops" by (rule assms(2))
  next
    fix a v assume "is_dict a"
    then show "is_dict (setitem a v ''Red'')"
      by (simp add: is_dict_def distinct_setitem)
  qed
qed

lemma rounds_loop_threshold_monotone:
  "rounds_loop threshold_round g k ops series = Inr (series', final) \<Longrightarrow>
   red_total ops \<le> red_total final
     \<and> (\<forall>v. map_of ops v = Some ''Red'' \<longrightarrow> map_of final v = Some ''Red'')"
proof (induction k arbitrary: ops series)
  case 0
  then show ?case by simp
next
  case (Suc k)
  from Suc.prems obtain n new where
    new: "threshold_round g ops = Inr new"
    and rest: "dict_eq new ops \<and> final = ops
                 \<or> rounds_loop threshold_round g k new (series @ [n]) = Inr (series', final)"
    by (auto simp add: round_body_def Let_def split: sum.splits if_splits)
  from rest show ?case
  proof
    assume "dict_eq new ops \<and> final = ops"
    then show ?thesis by simp
  next
    assume "rounds_loop threshold_round g k new (series @ [n]) = Inr (series', final)"
    from Suc.IH [OF this] threshold_round_red_total [OF new] threshold_round_keeps_red [OF new]
    show ?thesis by fastforce
  qed
qed

text \<open>
  C7. One round of the one-way threshold update of \<^verbatim>\<open>ba.py\<close> leaves every Red node
  Red, so the number of Red labels does not decrease from a round to the next; the same
  holds between the initial labeling and the labeling the simulation returns.
\<close>

theorem minority_never_reverts:
  "(\<forall>new_op. threshold_round g ops = Inr new_op \<longrightarrow>
      (\<forall>v. getitem ops v = Inr ''Red'' \<longrightarrow> getitem new_op v = Inr ''Red'')
        \<and> red_total ops \<le> red_total new_op)
   \<and> (\<forall>series final. ba_dynamic_simulation g ops = Inr (series, final) \<longrightarrow>
      (\<forall>v. getitem ops v = Inr ''Red'' \<longrightarrow> getitem final v = Inr ''Red'')
        \<and> red_total ops \<le> red_total final)"
  using threshold_round_red_total threshold_round_keeps_red
    rounds_loop_threshold_monotone [of g max_rounds ops "[]"]
  by (simp add: getitem_eq_map_of ba_dynamic_simulation_def)

theorem minority_never_reverts_witness:
  "threshold_round flip_graph flip_opinions
      = Inr [(0, ''Red''), (1, ''Red''), (2, ''Red''), (3, ''Blue''), (4, ''Blue'')]
   \<and> ba_dynamic_simulation flip_graph flip_opinions
      = Inr ([2, 0], [(0, ''Red''), (1, ''Red''), (2, ''Red''), (3, ''Blue''), (4, ''Blue'')])
   \<and> getitem flip_opinions 0 = Inr ''Red''
   \<and> getitem [(0, ''Red''), (1, ''Red''), (2, ''Red''), (3, ''Blue''), (4, ''Blue'')] 0 = Inr ''Red''
   \<and> red_total flip_opinions
        \<le> red_total [(0, ''Red''), (1, ''Red''), (2, ''Red''), (3, ''Blue''), (4, ''Blue'')]"
proof -
  let ?new = "[(0, ''Red''), (1, ''Red''), (2, ''Red''), (3, ''Blue''), (4, ''Blue'')]"
  have rnd: "threshold_round flip_graph flip_opinions = Inr ?new"
    by code_simp
  have sim: "ba_dynamic_simulation flip_graph flip_opinions = Inr ([2, 0], ?new)"
    by code_simp
  have red: "getitem flip_opinions 0 = Inr ''Red''"
    by code_simp
  from minority_never_reverts [of flip_graph flip_opinions] rnd red
  have "getitem ?new 0 = Inr ''Red'' \<and> red_total flip_opinions \<le> red_total ?new"
    by blast
  with rnd sim red show ?thesis by simp
qed

section \<open>The one-way threshold update reaches a fixed point\<close>

lemma filter_length_strict:
  assumes "\<And>x. x \<in> set xs \<Longrightarrow> Q x \<Longrightarrow> P x" and "u \<in> set xs" and "P u" and "\<not> Q u"
  shows "length (filter Q xs) < length (filter P xs)"
proof -
  have "filter (\<lambda>x. P x \<and> Q x) xs = filter Q xs"
    using assms(1) by (intro filter_cong) auto
  then have eq: "filter Q (filter P xs) = filter Q xs" by simp
  have "u \<in> set (filter P xs)" using assms(2,3) by simp
  then have "length (filter Q (filter P xs)) < length (filter P xs)"
    using assms(4) by (rule length_filter_less)
  then show ?thesis by (simp only: eq)
qed

lemma dict_eq_map_of:
  assumes "is_dict a" and "is_dict b"
  shows "dict_eq a b \<longleftrightarrow> map_of a = map_of b"
  using assms by (simp add: dict_eq_def is_dict_def map_of_inject_set)

lemma threshold_round_progress:
  assumes rnd: "threshold_round g ops = Inr new" and dict: "is_dict ops"
    and change: "\<not> dict_eq new ops"
  shows "blue_nodes g new < blue_nodes g ops"
proof -
  have "is_dict new" using rnd dict by (rule threshold_round_is_dict)
  with change dict have "map_of new \<noteq> map_of ops" by (simp add: dict_eq_map_of)
  then obtain u where "map_of new u \<noteq> map_of ops u" by blast
  with threshold_round_change [OF rnd, of u]
  have u: "map_of new u = Some ''Red''" "map_of ops u = Some ''Blue''" "u \<in> set (nodes g)"
    by simp_all
  have keep: "map_of ops x = Some ''Blue''" if "map_of new x = Some ''Blue''" for x
    using threshold_round_change [OF rnd, of x] that by auto
  show ?thesis
    unfolding blue_nodes_def
  proof (rule filter_length_strict)
    show "u \<in> set (nodes g)" by (rule u(3))
    show "map_of ops u = Some ''Blue''" by (rule u(2))
    show "map_of new u \<noteq> Some ''Blue''" using u(1) by simp
  qed (rule keep)
qed

lemma threshold_body_no_red:
  assumes "red_nbrs ops nbrs = 0" and "v \<in> fst ` set ops"
    and "list_all (\<lambda>u. u \<in> fst ` set ops) nbrs"
  shows "threshold_body ops v nbrs acc = Inr acc"
proof -
  obtain l where l: "getitem ops v = Inr l"
    using getitem_present [OF assms(2)] by blast
  have cr: "count_red ops nbrs = Inr 0"
    using count_red_total [OF assms(3)] assms(1) by simp
  show ?thesis by (simp add: threshold_body_def l cr phi_def)
qed

lemma threshold_loop_all_blue:
  assumes blue: "\<And>v. v \<in> set (nodes g) \<Longrightarrow> map_of ops v = Some ''Blue''"
    and nbrs: "\<And>v ns. (v, ns) \<in> set g' \<Longrightarrow> set ns \<subseteq> set (nodes g)"
    and total: "total_labeling g' ops"
  shows "update_loop threshold_body ops g' acc = Inr acc"
  using nbrs total
proof (induction g')
  case Nil
  then show ?case by simp
next
  case (Cons entry rest)
  obtain v ns where entry: "entry = (v, ns)" by (cases entry)
  from Cons.prems(2) entry have v: "v \<in> fst ` set ops"
    and cover: "list_all (\<lambda>u. u \<in> fst ` set ops) ns"
    and rest: "total_labeling rest ops"
    by (simp_all add: total_labeling_def)
  have "set ns \<subseteq> set (nodes g)" using Cons.prems(1) [of v ns] entry by simp
  with blue have "\<forall>u \<in> set ns. map_of ops u \<noteq> Some ''Red''" by fastforce
  then have "red_nbrs ops ns = 0" by (simp add: red_nbrs_def)
  then have body: "threshold_body ops v ns acc = Inr acc"
    using v cover by (rule threshold_body_no_red)
  have "set ms \<subseteq> set (nodes g)" if "(u, ms) \<in> set rest" for u ms
    using Cons.prems(1) [of u ms] that by simp
  then have "update_loop threshold_body ops rest acc = Inr acc"
    using rest by (rule Cons.IH)
  with body show ?case by (simp add: entry)
qed

lemma threshold_round_all_blue:
  assumes "wf_graph g" and "total_labeling g ops" and "blue_nodes g ops = length (nodes g)"
  shows "threshold_round g ops = Inr ops"
proof -
  have blue: "\<And>v. v \<in> set (nodes g) \<Longrightarrow> map_of ops v = Some ''Blue''"
  proof (rule ccontr)
    fix v assume "v \<in> set (nodes g)" and "map_of ops v \<noteq> Some ''Blue''"
    then have "length (filter (\<lambda>v. map_of ops v = Some ''Blue'') (nodes g)) < length (nodes g)"
      by (rule length_filter_less)
    with assms(3) show False by (simp add: blue_nodes_def)
  qed
  show ?thesis
    unfolding threshold_round_def
    using blue wf_graph_nbrs [OF assms(1)] assms(2) by (rule threshold_loop_all_blue)
qed

lemma blue_nodes_le: "blue_nodes g ops \<le> length (nodes g)"
  by (simp add: blue_nodes_def)

lemma threshold_fixed_pointI:
  "threshold_round g ops = Inr new \<Longrightarrow> dict_eq new ops \<Longrightarrow> threshold_fixed_point g ops"
  by (simp add: threshold_fixed_point_def)

lemma rounds_loop_threshold_stops:
  "is_dict ops \<Longrightarrow> total_labeling g ops \<Longrightarrow> blue_nodes g ops < cap \<Longrightarrow>
   \<exists>series' final. rounds_loop threshold_round g cap ops series = Inr (series', final)
      \<and> threshold_fixed_point g final
      \<and> length series' \<le> length series + blue_nodes g ops + 1"
proof (induction cap arbitrary: ops series)
  case 0
  then show ?case by simp
next
  case (Suc cap)
  obtain new where new: "threshold_round g ops = Inr new" "total_labeling g new"
    using threshold_round_total [OF Suc.prems(2)] by blast
  let ?ill = "map fst (filter (under_illusion (global_maj ops) ops) g)"
  have sml: "static_majority_illusion g ops = Inr (global_maj ops, ?ill)"
    using Suc.prems(2) by (rule static_majority_illusion_total)
  show ?case
  proof (cases "dict_eq new ops")
    case True
    with new(1) have "threshold_fixed_point g ops" by (rule threshold_fixed_pointI)
    with True show ?thesis by (simp add: round_body_def sml new Let_def)
  next
    case False
    have less: "blue_nodes g new < blue_nodes g ops"
      using new(1) Suc.prems(1) False by (rule threshold_round_progress)
    with Suc.prems(3) have cap: "blue_nodes g new < cap" by simp
    have "is_dict new" using new(1) Suc.prems(1) by (rule threshold_round_is_dict)
    from Suc.IH [OF this new(2) cap, of "series @ [length ?ill]"]
    obtain series' final where res:
      "rounds_loop threshold_round g cap new (series @ [length ?ill]) = Inr (series', final)"
      "threshold_fixed_point g final"
      "length series' \<le> length (series @ [length ?ill]) + blue_nodes g new + 1"
      by blast
    from res(3) less have "length series' \<le> length series + blue_nodes g ops + 1" by simp
    with False res(1,2) show ?thesis
      by (simp add: round_body_def sml new Let_def)
  qed
qed

text \<open>
  C8 (as amended). On a graph with \<open>N\<close> nodes the loop of \<^verbatim>\<open>ba.py\<close>, run with any
  round cap that is at least \<open>N\<close>, leaves through its fixed-point test: the labeling it
  returns is not changed by a further update, and it has run at most \<open>max 1 N\<close> rounds,
  that is at most \<open>N\<close> rounds on every graph that has a node. Every round that changes
  a label turns at least one Blue node Red, and a labeling with only Blue nodes changes
  nothing.
\<close>

theorem one_way_fixed_point:
  assumes wf: "wf_graph g" and dict: "is_dict ops" and total: "total_labeling g ops"
    and cap: "length (nodes g) \<le> cap"
  shows "\<exists>series final. rounds_loop threshold_round g cap ops [] = Inr (series, final)
            \<and> threshold_fixed_point g final
            \<and> length series \<le> max 1 (length (nodes g))"
proof (cases "blue_nodes g ops = length (nodes g)")
  case True
  have rnd: "threshold_round g ops = Inr ops"
    using wf total True by (rule threshold_round_all_blue)
  then have fixed: "threshold_fixed_point g ops"
    by (rule threshold_fixed_pointI) (simp add: dict_eq_def)
  let ?ill = "map fst (filter (under_illusion (global_maj ops) ops) g)"
  have sml: "static_majority_illusion g ops = Inr (global_maj ops, ?ill)"
    using total by (rule static_majority_illusion_total)
  show ?thesis
  proof (cases cap)
    case 0
    with fixed show ?thesis by simp
  next
    case (Suc k)
    with fixed show ?thesis
      by (simp add: round_body_def sml rnd Let_def dict_eq_def)
  qed
next
  case False
  with blue_nodes_le [of g ops] have "blue_nodes g ops < length (nodes g)" by simp
  with cap have less: "blue_nodes g ops < cap" and le: "blue_nodes g ops + 1 \<le> length (nodes g)"
    by simp_all
  from rounds_loop_threshold_stops [OF dict total less, of "[]"]
  obtain series final where
    "rounds_loop threshold_round g cap ops [] = Inr (series, final)"
    "threshold_fixed_point g final"
    "length series \<le> length ([] :: nat list) + blue_nodes g ops + 1"
    by blast
  with le show ?thesis by auto
qed

theorem one_way_fixed_point_witness:
  "wf_graph flip_graph \<and> is_dict flip_opinions \<and> total_labeling flip_graph flip_opinions
     \<and> length (nodes flip_graph) \<le> 5
     \<and> (\<exists>series final.
           rounds_loop threshold_round flip_graph 5 flip_opinions [] = Inr (series, final)
             \<and> threshold_fixed_point flip_graph final
             \<and> length series \<le> max 1 (length (nodes flip_graph)))"
proof -
  have dict: "is_dict flip_opinions"
    by (simp add: is_dict_def flip_opinions_def)
  have cap: "length (nodes flip_graph) \<le> 5"
    by (simp add: nodes_def flip_graph_def)
  show ?thesis
    using one_way_fixed_point [OF wf_flip_graph dict total_labeling_flip cap]
      wf_flip_graph dict total_labeling_flip cap
    by simp
qed

text \<open>
  C8 (as stated) fails on the graph without nodes: the loop appends one illusion size
  before its first fixed-point test, so it runs one round where \<open>N\<close> is 0.
\<close>

theorem one_way_empty_graph_counterexample:
  "length (nodes ([] :: graph)) = 0
   \<and> ba_dynamic_simulation [] [] = Inr ([0], [])
   \<and> rounds_loop threshold_round [] 1 [] [] = Inr ([0], [])
   \<and> \<not> length [0 :: nat] \<le> length (nodes ([] :: graph))"
  by code_simp

section \<open>Facts about the opinion assigner\<close>

lemma degree_keys_total:
  "set vs \<subseteq> set (nodes g) \<Longrightarrow> degree_keys g vs = Inr (map (\<lambda>v. (v, degree_in g v)) vs)"
proof (induction vs)
  case Nil
  then show ?case by simp
next
  case (Cons v vs)
  from Cons.prems have "v \<in> fst ` set g" by (simp add: nodes_def)
  then obtain nbrs where "map_of g v = Some nbrs"
    by (metis domD dom_map_of_conv_image_fst)
  then have "degree_of g v = Inr (degree_in g v)"
    by (simp add: degree_of_def degree_in_def)
  with Cons show ?case by simp
qed

lemma insort_key_decorated:
  "insort_key snd (v, f v) (map (\<lambda>v. (v, f v)) ys) = map (\<lambda>v. (v, f v)) (insort_key f v ys)"
  by (induction ys) simp_all

lemma sort_key_decorated:
  "sort_key snd (map (\<lambda>v. (v, f v)) xs) = map (\<lambda>v. (v, f v)) (sort_key f xs)"
  by (induction xs) (simp_all add: insort_key_decorated)

lemma py_sorted_reverse_decorated:
  "py_sorted_reverse (map (\<lambda>v. (v, f v)) xs) = rev (sort_key f (rev xs))"
  by (simp add: py_sorted_reverse_def rev_map sort_key_decorated comp_def)

lemma ranked_set: "set (rev (sort_key f (rev xs))) = set xs"
  by simp

lemma ranked_distinct: "distinct (rev (sort_key f (rev xs))) = distinct xs"
  by simp

lemma ranked_length: "length (rev (sort_key f (rev xs))) = length xs"
  by simp

lemma ranked_descending: "sorted (rev (map f (rev (sort_key f (rev xs)))))"
  by (simp add: rev_map [symmetric])

lemma ranked_stable:
  "filter (\<lambda>y. f y = k) (rev (sort_key f (rev xs))) = filter (\<lambda>y. f y = k) xs"
  by (simp add: rev_filter [symmetric] sort_key_stable)

lemma red_total_opinions_init:
  "red_total (opinions_init g M) = length (filter (\<lambda>v. v \<in> M) (nodes g))"
proof -
  have "length (filter (\<lambda>op. op = ''Red'')
          (map snd (map (\<lambda>v. (v, if v \<in> M then ''Red'' else ''Blue'')) ns)))
        = length (filter (\<lambda>v. v \<in> M) ns)" for ns :: "node list"
    by (induction ns) simp_all
  then show ?thesis by (simp add: red_total_def opinions_init_def)
qed

lemma red_total_subset:
  assumes "distinct (nodes g)" and "M \<subseteq> set (nodes g)"
  shows "red_total (opinions_init g M) = card M"
proof -
  have "length (filter (\<lambda>v. v \<in> M) (nodes g)) = card ({v. v \<in> M} \<inter> set (nodes g))"
    using assms(1) by (rule distinct_length_filter)
  also have "{v. v \<in> M} \<inter> set (nodes g) = M" using assms(2) by auto
  finally show ?thesis by (simp add: red_total_opinions_init)
qed

lemma capped_assignment:
  assumes iter: "set_iteration iter" and sub: "influencers \<subseteq> set (nodes g)"
    and pos: "0 \<le> target" and more: "int (card influencers) > target"
  shows "minority_assignment iter sample g influencers target
           = Inr (set (take (nat target)
                   (rev (sort_key (degree_in g) (rev (iter influencers))))))"
proof -
  have fin: "finite influencers" using sub by (rule finite_subset) simp
  with iter have "set (iter influencers) = influencers"
    by (simp add: set_iteration_def)
  with sub have "set (iter influencers) \<subseteq> set (nodes g)" by simp
  then have "degree_keys g (iter influencers)
               = Inr (map (\<lambda>v. (v, degree_in g v)) (iter influencers))"
    by (rule degree_keys_total)
  with pos more show ?thesis
    by (simp add: minority_assignment_def slice_to_def py_sorted_reverse_decorated)
qed

lemma set_iteration_sorted: "set_iteration iter_sorted"
  by (simp add: set_iteration_def iter_sorted_def)

lemma random_sample_first: "random_sample sample_first"
  by (auto simp add: random_sample_def sample_first_def dest: in_set_takeD)

lemma set_iteration_cpython: "set_iteration iter_cpython"
  by (auto simp add: set_iteration_def iter_cpython_def)


lemma wf_hubs_graph: "wf_graph hubs_graph"
  by (simp add: wf_graph_def hubs_graph_def nodes_def)

section \<open>The number of Red nodes of the initial labeling\<close>

text \<open>
  C3 (as amended). For every graph, every influencer set of its nodes and every integer
  target from 0 to the number of nodes, the assignment succeeds and the initial labeling
  has exactly \<^verbatim>\<open>target\<close> Red nodes, whether the influencers are more than, as many
  as, or fewer than the target. The target is the integer that \<^verbatim>\<open>int(frac * N)\<close>
  gives, a truncation and not a rounding.
\<close>

theorem forced_target_count:
  assumes wf: "wf_graph g" and sub: "influencers \<subseteq> set (nodes g)"
    and iter: "set_iteration iter" and sample: "random_sample sample"
    and pos: "0 \<le> target" and le: "target \<le> int (length (nodes g))"
  shows "\<exists>minority. minority_assignment iter sample g influencers target = Inr minority
           \<and> int (red_total (opinions_init g minority)) = target"
proof (cases "int (card influencers) > target")
  case True
  have nodes: "distinct (nodes g)" using wf by (simp add: wf_graph_def)
  have fin: "finite influencers" using sub by (rule finite_subset) simp
  with iter have it: "set (iter influencers) = influencers" "distinct (iter influencers)"
    by (simp_all add: set_iteration_def)
  let ?ranked = "rev (sort_key (degree_in g) (rev (iter influencers)))"
  let ?M = "set (take (nat target) ?ranked)"
  have res: "minority_assignment iter sample g influencers target = Inr ?M"
    using iter sub pos True by (rule capped_assignment)
  have len: "length ?ranked = card influencers"
    using it by (simp add: distinct_card [symmetric])
  have "distinct (take (nat target) ?ranked)" using it(2) by simp
  then have "card ?M = length (take (nat target) ?ranked)" by (rule distinct_card)
  also have "\<dots> = nat target" using len True by simp
  finally have card: "card ?M = nat target" .
  have "?M \<subseteq> set ?ranked" by (rule set_take_subset)
  with it(1) sub have "?M \<subseteq> set (nodes g)" by simp
  with nodes have "red_total (opinions_init g ?M) = card ?M" by (rule red_total_subset)
  with card pos res show ?thesis by simp
next
  case False
  have nodes: "distinct (nodes g)" using wf by (simp add: wf_graph_def)
  have fin: "finite influencers" using sub by (rule finite_subset) simp
  let ?rest = "iter (set (nodes g) - influencers)"
  have rest: "set ?rest = set (nodes g) - influencers" "distinct ?rest"
    using iter by (simp_all add: set_iteration_def)
  have "length ?rest = card (set (nodes g) - influencers)"
    using rest by (simp add: distinct_card [symmetric])
  also have "\<dots> = card (set (nodes g)) - card influencers"
    using sub by (simp add: card_Diff_subset fin)
  also have "card (set (nodes g)) = length (nodes g)" using nodes by (rule distinct_card)
  finally have len: "length ?rest = length (nodes g) - card influencers" .
  show ?thesis
  proof (cases "target - int (card influencers) > 0")
    case extra: True
    let ?k = "nat (target - int (card influencers))"
    have "?k \<le> length ?rest" using len le by simp
    with sample obtain s where s: "sample ?rest ?k = Inr s" "length s = ?k"
      "set s \<subseteq> set ?rest" "distinct s"
      unfolding random_sample_def using rest(2) by (metis (full_types))
    let ?M = "influencers \<union> set s"
    have res: "minority_assignment iter sample g influencers target = Inr ?M"
      using False extra s(1) by (simp add: minority_assignment_def Let_def)
    have disj: "influencers \<inter> set s = {}" using s(3) rest(1) by auto
    have "card ?M = card influencers + card (set s)"
      using fin disj by (simp add: card_Un_disjoint)
    also have "card (set s) = ?k" using s(2,4) by (simp add: distinct_card)
    finally have card: "int (card ?M) = target" using extra by simp
    have "?M \<subseteq> set (nodes g)" using sub s(3) rest(1) by auto
    with nodes have "red_total (opinions_init g ?M) = card ?M" by (rule red_total_subset)
    with card res show ?thesis by simp
  next
    case no_extra: False
    with False have eq: "int (card influencers) = target" by simp
    have res: "minority_assignment iter sample g influencers target = Inr influencers"
      using False no_extra by (simp add: minority_assignment_def Let_def)
    from nodes sub have "red_total (opinions_init g influencers) = card influencers"
      by (rule red_total_subset)
    with eq res show ?thesis by simp
  qed
qed

theorem forced_target_count_witness:
  "wf_graph hubs_graph \<and> {1, 2, 8} \<subseteq> set (nodes hubs_graph)
     \<and> set_iteration iter_cpython \<and> random_sample sample_first
     \<and> (0 :: int) \<le> 5 \<and> 5 \<le> int (length (nodes hubs_graph))
     \<and> (\<exists>minority.
           minority_assignment iter_cpython sample_first hubs_graph {1, 2, 8} 5 = Inr minority
           \<and> int (red_total (opinions_init hubs_graph minority)) = 5)"
proof -
  have sub: "{1, 2, 8} \<subseteq> set (nodes hubs_graph)"
    by (simp add: nodes_def hubs_graph_def)
  have lo: "(0 :: int) \<le> 5" by simp
  have hi: "5 \<le> int (length (nodes hubs_graph))"
    by (simp add: nodes_def hubs_graph_def)
  show ?thesis
    using forced_target_count [OF wf_hubs_graph sub set_iteration_cpython
        random_sample_first lo hi]
      wf_hubs_graph sub set_iteration_cpython random_sample_first hi
    by simp
qed

text \<open>
  C3 (as stated) fails on the path of three nodes with the fraction 1/2: the product
  \<^verbatim>\<open>0.5 * 3\<close> is the double 1.5, \<^verbatim>\<open>int\<close> truncates it to the target 1 and the code
  labels one node Red, while \<^verbatim>\<open>round(1.5)\<close> is 2.
\<close>

theorem round_target_counterexample:
  "identify_influencers_by_threshold path3 = Inr {}
   \<and> int_trunc (3 / 2) = 1
   \<and> minority_assignment iter_sorted sample_first path3 {} 1 = Inr {0}
   \<and> int (red_total (opinions_init path3 {0})) = 1
   \<and> spec_target_count (1 / 2) (length (nodes path3)) = 2"
  by code_simp

section \<open>Which influencers are kept when there are too many\<close>

text \<open>
  C5 (as amended). When there are more influencers than the target, the Minority set is
  the first \<^verbatim>\<open>target\<close> influencers of the ranking by degree, largest first, in which
  influencers of equal degree stay in the order in which the influencer set is iterated:
  the sort is stable and has no second key.
\<close>

theorem capped_minority_is_top_ranked:
  assumes "set_iteration iter" and "influencers \<subseteq> set (nodes g)"
    and "0 \<le> target" and "target < int (card influencers)"
  shows "\<exists>ranked.
           minority_assignment iter sample g influencers target
             = Inr (set (take (nat target) ranked))
           \<and> set ranked = influencers \<and> distinct ranked
           \<and> sorted (rev (map (degree_in g) ranked))
           \<and> (\<forall>d. filter (\<lambda>v. degree_in g v = d) ranked
                   = filter (\<lambda>v. degree_in g v = d) (iter influencers))"
proof -
  have "finite influencers" using assms(2) by (rule finite_subset) simp
  with assms(1) have it: "set (iter influencers) = influencers" "distinct (iter influencers)"
    by (simp_all add: set_iteration_def)
  let ?ranked = "rev (sort_key (degree_in g) (rev (iter influencers)))"
  have "minority_assignment iter sample g influencers target
          = Inr (set (take (nat target) ?ranked))"
    using assms by (rule capped_assignment)
  moreover have "set ?ranked = influencers" using it(1) by simp
  moreover have "distinct ?ranked" using it(2) by simp
  moreover have "sorted (rev (map (degree_in g) ?ranked))" by (rule ranked_descending)
  moreover have "\<forall>d. filter (\<lambda>v. degree_in g v = d) ?ranked
                   = filter (\<lambda>v. degree_in g v = d) (iter influencers)"
    by (simp add: ranked_stable)
  ultimately show ?thesis by blast
qed

theorem capped_minority_is_top_ranked_witness:
  "set_iteration iter_cpython \<and> {1, 2, 8} \<subseteq> set (nodes hubs_graph)
     \<and> (0 :: int) \<le> 2 \<and> 2 < int (card {1 :: node, 2, 8})
     \<and> (\<exists>ranked.
           minority_assignment iter_cpython sample_first hubs_graph {1, 2, 8} 2
             = Inr (set (take (nat 2) ranked))
           \<and> set ranked = {1, 2, 8} \<and> distinct ranked
           \<and> sorted (rev (map (degree_in hubs_graph) ranked))
           \<and> (\<forall>d. filter (\<lambda>v. degree_in hubs_graph v = d) ranked
                   = filter (\<lambda>v. degree_in hubs_graph v = d) (iter_cpython {1, 2, 8})))"
proof -
  have sub: "{1, 2, 8} \<subseteq> set (nodes hubs_graph)"
    by (simp add: nodes_def hubs_graph_def)
  have lo: "(0 :: int) \<le> 2" by simp
  have hi: "2 < int (card {1 :: node, 2, 8})" by simp
  show ?thesis
    using capped_minority_is_top_ranked [OF set_iteration_cpython sub lo hi, of sample_first]
      set_iteration_cpython sub hi
    by simp
qed

text \<open>
  C5 (as stated) fails on three hubs 1, 2 and 8 of equal degree with the target 2:
  CPython iterates the set as 8, 1, 2 and the code keeps 8 and 1, while a tie-break by
  node identifier keeps 1 and 2, or 8 and 2.
\<close>

theorem node_id_tie_break_counterexample:
  "identify_influencers_by_threshold hubs_graph = Inr {1, 2, 8}
   \<and> minority_assignment iter_cpython sample_first hubs_graph {1, 2, 8} 2 = Inr {8, 1}
   \<and> spec_top_influencers_asc hubs_graph {1, 2, 8} 2 = {1, 2}
   \<and> spec_top_influencers_desc hubs_graph {1, 2, 8} 2 = {8, 2}
   \<and> {8, 1} \<noteq> {1, 2 :: node} \<and> {8, 1} \<noteq> {8, 2 :: node}"
  by code_simp

section \<open>The final illusion count of a batch record\<close>

text \<open>
  When the loop leaves through its fixed-point test, the last entry of the series is
  the illusion count of the labeling it returns.
\<close>

lemma final_count_exact_on_break:
  "rounds_loop rnd g k ops series = Inr (series', final) \<Longrightarrow>
   length series' < length series + k \<Longrightarrow>
   static_majority_illusion g final = Inr (gm, ill) \<Longrightarrow>
   last_item series' = Inr (length ill)"
proof (induction k arbitrary: ops series)
  case 0
  then show ?case by simp
next
  case (Suc k)
  from Suc.prems(1) obtain res where sml: "static_majority_illusion g ops = Inr res"
    by (cases "static_majority_illusion g ops") (simp_all add: round_body_def)
  from Suc.prems(1) sml obtain new where new: "rnd g ops = Inr new"
    by (cases "rnd g ops") (simp_all add: round_body_def Let_def)
  show ?case
  proof (cases "dict_eq new ops")
    case True
    with Suc.prems(1) sml new have "series' = series @ [length (snd res)]" "final = ops"
      by (simp_all add: round_body_def Let_def)
    with sml Suc.prems(3) show ?thesis by (simp add: last_item_def)
  next
    case False
    with Suc.prems(1) sml new
    have loop: "rounds_loop rnd g k new (series @ [length (snd res)]) = Inr (series', final)"
      by (simp add: round_body_def Let_def)
    from Suc.prems(2) have "length series' < length (series @ [length (snd res)]) + k" by simp
    with loop show ?thesis using Suc.prems(3) by (rule Suc.IH)
  qed
qed

text \<open>
  C4. The claim is that the \<^verbatim>\<open>'final'\<close> entry of a batch record is the illusion count
  of the labeling the simulation returns, also when the round cap ends the loop. On the
  graph below the reversible update alternates between two labelings, the loop runs all
  of its 50 rounds, the record stores the count 2 of the labeling before the last update,
  and the labeling returned has 3 nodes under illusion.
\<close>

theorem final_count_stale_at_round_cap:
  "identify_influencers_by_threshold ba6_graph = Inr {}
   \<and> dynamic_simulation ba6_graph ba6_opinions = Inr (concat (replicate 25 [3, 2]), ba6_opinions)
   \<and> trial_record 0 (1 / 3) ba6_graph ba6_opinions
       = Inr \<lparr>rec_infl = 0, rec_frac = 1 / 3, rec_static = 3, rec_final = 2\<rparr>
   \<and> static_majority_illusion ba6_graph ba6_opinions = Inr (''Blue'', [2, 3, 4])"
  by code_simp

end
